theory Spec2Isabelle
  imports
    Complex_Main
    "HOL-Library.AList"
    "HOL-Library.Char_ord"
    "HOL-Library.List_Lexorder"
    "HOL-Library.Option_ord"
begin

section \<open>The stored rows\<close>

text \<open>
  The server keeps three tables, \<^verbatim>\<open>income\<close>, \<^verbatim>\<open>expense\<close> and \<^verbatim>\<open>budget\<close>, each row
  tagged with the e-mail of its owner. The columns are those named by the
  \<^verbatim>\<open>INSERT\<close> statements of the routes \<^verbatim>\<open>POST /api/income\<close>, \<^verbatim>\<open>POST /api/expense\<close> and
  \<^verbatim>\<open>POST /api/budgets\<close>.

  Amounts are decimal numbers with two places (the pages work in dollars and cents). A
  stored amount and every sum that the database computes are exact; they are
  represented by their number of cents. JavaScript turns such a decimal into a double
  before it computes with it; that step and the arithmetic on doubles are the subject of
  the next section.

  A date column holds a calendar date or \<^verbatim>\<open>NULL\<close>; \<open>None\<close> stands for \<^verbatim>\<open>NULL\<close>.
\<close>

text \<open>
  Modelled from the spec: the schema of the tables (their \<^verbatim>\<open>CREATE TABLE\<close> statements)
  is not part of the repository. Following the data model of the specification, text
  columns are compared exactly as stored (no folding of case or blanks by a
  collation), amounts are decimals and never \<^verbatim>\<open>NULL\<close>, and a date is a calendar date
  when it is there.
\<close>

record date =
  year :: nat
  month :: nat
  day :: nat

record income_row =
  i_user_email :: string
  i_source :: string
  i_amount :: int
  i_cadence :: string
  i_date :: "date option"

record expense_row =
  e_user_email :: string
  e_category :: string
  e_description :: "string option"
  e_amount :: int
  e_date :: "date option"
  e_cadence :: string

record budget_row =
  b_user_email :: string
  b_category :: string
  b_amount :: int
  b_cadence :: string

record db =
  income :: "income_row list"
  expense :: "expense_row list"
  budget :: "budget_row list"


section \<open>JavaScript numbers\<close>

text \<open>
  A JavaScript number is \<^verbatim>\<open>NaN\<close>, an infinity or a finite double, given by its exact
  value. (Zero has no sign here.)
\<close>

datatype jsnum = NaN | PosInf | NegInf | Fin rat

text \<open>
  The double nearest to a rational number. A double has 53 binary digits; the number
  \<open>q\<close> with \<open>2^e \<le> \<bar>q\<bar> < 2^(e+1)\<close> is rounded to a multiple of \<open>2^(e-52)\<close>, to the
  nearest one and in a tie to the one with an even multiplier; below \<open>2^-1022\<close> the
  step stays \<open>2^-1074\<close>, and a result of \<open>2^1024\<close> or more is an infinity. For
  \<open>q > 0\<close>, \<open>binade q\<close> is the \<open>e\<close> with \<open>2^e \<le> q < 2^(e+1)\<close>, found through the number
  of binary digits of an integer.
\<close>

function bit_length :: "int \<Rightarrow> nat" where
  "bit_length n = (if n \<le> 0 then 0 else Suc (bit_length (n div 2)))"
  by pat_completeness auto
termination
  by (relation "measure nat") auto

definition pow2 :: "int \<Rightarrow> rat" where
  "pow2 e = (if 0 \<le> e then 2 ^ nat e else 1 / 2 ^ nat (- e))"

definition binade :: "rat \<Rightarrow> int" where
  "binade q =
     (if 1 \<le> q then int (bit_length \<lfloor>q\<rfloor>) - 1
      else - int (bit_length (\<lceil>1 / q\<rceil> - 1)))"

definition round_half_even :: "rat \<Rightarrow> int" where
  "round_half_even x =
     (let f = \<lfloor>x\<rfloor>; r = x - of_int f
      in if r < 1 / 2 then f else if 1 / 2 < r then f + 1 else if even f then f else f + 1)"

definition to_double :: "rat \<Rightarrow> jsnum" where
  "to_double q =
     (if q = 0 then Fin 0
      else
        (let e = max (binade \<bar>q\<bar>) (- 1022) - 52;
             v = of_int (round_half_even (\<bar>q\<bar> / pow2 e)) * pow2 e
         in if 2 ^ 1024 \<le> v then (if q < 0 then NegInf else PosInf)
            else Fin (if q < 0 then - v else v)))"

text \<open>
  \<^verbatim>\<open>a + b\<close> and \<^verbatim>\<open>a - b\<close> on numbers: the exact result, rounded to a double.
\<close>

fun js_add :: "jsnum \<Rightarrow> jsnum \<Rightarrow> jsnum" where
  "js_add (Fin a) (Fin b) = to_double (a + b)"
| "js_add NaN _ = NaN"
| "js_add _ NaN = NaN"
| "js_add PosInf NegInf = NaN"
| "js_add NegInf PosInf = NaN"
| "js_add PosInf _ = PosInf"
| "js_add _ PosInf = PosInf"
| "js_add NegInf _ = NegInf"
| "js_add _ NegInf = NegInf"

fun js_neg :: "jsnum \<Rightarrow> jsnum" where
  "js_neg (Fin a) = Fin (- a)"
| "js_neg NaN = NaN"
| "js_neg PosInf = NegInf"
| "js_neg NegInf = PosInf"

definition js_sub :: "jsnum \<Rightarrow> jsnum \<Rightarrow> jsnum" where
  "js_sub a b = js_add a (js_neg b)"

text \<open>
  The number that JavaScript makes of a decimal handed over by the database driver
  (\<^verbatim>\<open>Number(x)\<close>, or the conversion that \<^verbatim>\<open>-\<close> applies to its operands): the double nearest
  to the decimal. The decimal is given by its number of cents.
\<close>

definition Number_decimal :: "int \<Rightarrow> jsnum" where
  "Number_decimal c = to_double (of_int c / 100)"

text \<open>The exact value of a decimal given by its number of cents.\<close>

definition decimal_value :: "int \<Rightarrow> rat" where
  "decimal_value c = of_int c / 100"


section \<open>The SQL fragments the report uses\<close>

text \<open>\<^verbatim>\<open>SUM\<close> over no rows is \<^verbatim>\<open>NULL\<close>; \<^verbatim>\<open>IFNULL(x, d)\<close> replaces \<^verbatim>\<open>NULL\<close> by \<open>d\<close>.\<close>

definition sql_sum :: "int list \<Rightarrow> int option" where
  "sql_sum xs = (if xs = [] then None else Some (sum_list xs))"

definition ifnull :: "int option \<Rightarrow> int \<Rightarrow> int" where
  "ifnull x d = (case x of None \<Rightarrow> d | Some v \<Rightarrow> v)"

text \<open>
  \<^verbatim>\<open>GROUP BY\<close>: one group per distinct key. The keys are listed in the order of their
  first occurrence (SQL leaves the order of an unordered result open). Every group
  holds at least one row, so the \<^verbatim>\<open>SUM\<close> of a group is never \<^verbatim>\<open>NULL\<close>.
\<close>

fun group_keys :: "'k list \<Rightarrow> 'k list" where
  "group_keys [] = []"
| "group_keys (k # ks) = k # group_keys (filter (\<lambda>x. x \<noteq> k) ks)"

definition group_total :: "('r \<Rightarrow> 'k) \<Rightarrow> ('r \<Rightarrow> int) \<Rightarrow> 'r list \<Rightarrow> 'k \<Rightarrow> int" where
  "group_total key val rows k = sum_list (map val (filter (\<lambda>r. key r = k) rows))"

definition sql_group_sum :: "('r \<Rightarrow> 'k) \<Rightarrow> ('r \<Rightarrow> int) \<Rightarrow> 'r list \<Rightarrow> ('k \<times> int) list" where
  "sql_group_sum key val rows =
     map (\<lambda>k. (k, group_total key val rows k)) (group_keys (map key rows))"

text \<open>
  \<^verbatim>\<open>DATE_FORMAT(date, '%Y-%m-01')\<close>: the four digits of the year, the two digits of the
  month and the constant day \<^verbatim>\<open>01\<close>; \<^verbatim>\<open>NULL\<close> for the date \<^verbatim>\<open>NULL\<close>. A calendar date has a
  year up to 9999 and a month from 1 to 12.
\<close>

definition digit :: "nat \<Rightarrow> char" where
  "digit n = char_of (48 + n mod 10)"

definition digits4 :: "nat \<Rightarrow> string" where
  "digits4 n = [digit (n div 1000), digit (n div 100), digit (n div 10), digit n]"

definition digits2 :: "nat \<Rightarrow> string" where
  "digits2 n = [digit (n div 10), digit n]"

definition date_format_ym01 :: "date option \<Rightarrow> string option" where
  "date_format_ym01 d =
     (case d of
        None \<Rightarrow> None
      | Some x \<Rightarrow> Some (digits4 (year x) @ ''-'' @ digits2 (month x) @ ''-01''))"

definition valid_date :: "date \<Rightarrow> bool" where
  "valid_date d \<longleftrightarrow> year d \<le> 9999 \<and> 1 \<le> month d \<and> month d \<le> 12 \<and> 1 \<le> day d \<and> day d \<le> 31"





section \<open>The report route\<close>

record month_total =
  mt_date :: "string option"
  mt_total :: int

record category_total =
  ct_category :: string
  ct_total :: int

record totals =
  t_income :: int
  t_expenses :: int
  t_net :: jsnum

record budgets_part =
  bp_total :: jsnum
  bp_byCategory :: "category_total list"

record report_payload =
  rp_totals :: totals
  rp_monthlyIncome :: "month_total list"
  rp_expensesByCategory :: "category_total list"
  rp_budgets :: budgets_part

datatype error = DbError | TypeError

text \<open>The rows of one user, as selected by \<^verbatim>\<open>WHERE user_email=?\<close>.\<close>

definition income_of :: "db \<Rightarrow> string \<Rightarrow> income_row list" where
  "income_of d email = filter (\<lambda>r. i_user_email r = email) (income d)"

definition expense_of :: "db \<Rightarrow> string \<Rightarrow> expense_row list" where
  "expense_of d email = filter (\<lambda>r. e_user_email r = email) (expense d)"

definition budget_of :: "db \<Rightarrow> string \<Rightarrow> budget_row list" where
  "budget_of d email = filter (\<lambda>r. b_user_email r = email) (budget d)"

text \<open>
  The five queries of \<^verbatim>\<open>GET /api/reports\<close>. Each returns its result rows as a list.
  \<^verbatim>\<open>ORDER BY\<close> is a stable sort on the key; SQL leaves the order of rows with equal
  keys open. In the monthly query \<^verbatim>\<open>ORDER BY date\<close> names the selected key string, and a
  \<^verbatim>\<open>NULL\<close> key comes before every string. \<^verbatim>\<open>ORDER BY total DESC\<close> is the ascending
  order of the negated total.
\<close>

definition q_income_total :: "db \<Rightarrow> string \<Rightarrow> int list" where
  "q_income_total d email =
     [ifnull (sql_sum (map i_amount (income_of d email))) 0]"

definition q_expense_total :: "db \<Rightarrow> string \<Rightarrow> int list" where
  "q_expense_total d email =
     [ifnull (sql_sum (map e_amount (expense_of d email))) 0]"

definition q_monthly_income :: "db \<Rightarrow> string \<Rightarrow> month_total list" where
  "q_monthly_income d email =
     sort_key mt_date
       (map (\<lambda>(k, t). \<lparr>mt_date = k, mt_total = t\<rparr>)
         (sql_group_sum (\<lambda>r. date_format_ym01 (i_date r)) i_amount
           (income_of d email)))"

definition q_expense_categories :: "db \<Rightarrow> string \<Rightarrow> category_total list" where
  "q_expense_categories d email =
     sort_key (\<lambda>r. - ct_total r)
       (map (\<lambda>(k, t). \<lparr>ct_category = k, ct_total = t\<rparr>)
         (sql_group_sum e_category e_amount
           (expense_of d email)))"

definition q_budget_categories :: "db \<Rightarrow> string \<Rightarrow> category_total list" where
  "q_budget_categories d email =
     map (\<lambda>(k, t). \<lparr>ct_category = k, ct_total = t\<rparr>)
       (sql_group_sum b_category b_amount
         (budget_of d email))"

text \<open>
  The handler. \<open>None\<close> for the connection stands for a database that cannot be reached
  or a query that fails: the \<^verbatim>\<open>catch\<close> block answers with status 500. The pattern
  \<^verbatim>\<open>const [[inc]] = ...\<close> takes the first result row; reading a field of a missing row
  would throw a \<^verbatim>\<open>TypeError\<close>, caught by the same block. The totals and the grouped sums
  go into the payload as the database computed them; \<^verbatim>\<open>inc.income - exp.expenses\<close> and
  \<^verbatim>\<open>bud.reduce((s, r) => s + Number(r.total), 0)\<close> are computed by JavaScript, in doubles.
\<close>

definition reports :: "db option \<Rightarrow> string \<Rightarrow> error + report_payload" where
  "reports conn email =
     (case conn of
        None \<Rightarrow> Inl DbError
      | Some d \<Rightarrow>
          (case q_income_total d email of
             [] \<Rightarrow> Inl TypeError
           | inc # _ \<Rightarrow>
               (case q_expense_total d email of
                  [] \<Rightarrow> Inl TypeError
                | expn # _ \<Rightarrow>
                    (let monthlyInc = q_monthly_income d email;
                         cats = q_expense_categories d email;
                         bud = q_budget_categories d email
                     in Inr \<lparr>rp_totals = \<lparr>t_income = inc, t_expenses = expn,
                                t_net = js_sub (Number_decimal inc) (Number_decimal expn)\<rparr>,
                             rp_monthlyIncome = monthlyInc,
                             rp_expensesByCategory = cats,
                             rp_budgets =
                               \<lparr>bp_total =
                                  foldl (\<lambda>s r. js_add s (Number_decimal (ct_total r))) (Fin 0) bud,
                                bp_byCategory = bud\<rparr>\<rparr>))))"


section \<open>The budget list route and the budget maps of the pages\<close>

text \<open>
  \<^verbatim>\<open>GET /api/budgets\<close> returns the budget rows of the user, ordered by category, as
  JSON items. An item has a category and an amount; the pages also look for a field
  \<^verbatim>\<open>total\<close>, which this route never sets. A field that is absent or \<^verbatim>\<open>null\<close> is \<open>None\<close>.
\<close>

record budget_item =
  bi_category :: string
  bi_amount :: "int option"
  bi_total :: "int option"

definition api_budgets :: "db \<Rightarrow> string \<Rightarrow> budget_item list" where
  "api_budgets d email =
     map (\<lambda>b. \<lparr>bi_category = b_category b, bi_amount = Some (b_amount b), bi_total = None\<rparr>)
       (sort_key b_category (budget_of d email))"

text \<open>
  \<^verbatim>\<open>a || b\<close> on decimal fields: the left operand when it is truthy (present and not 0),
  else the right one. \<^verbatim>\<open>x || 0\<close> is the decimal \<open>x\<close>, or 0 when \<open>x\<close> is missing.
\<close>

definition js_or :: "int option \<Rightarrow> int option \<Rightarrow> int option" where
  "js_or a b = (case a of None \<Rightarrow> b | Some v \<Rightarrow> if v = 0 then b else Some v)"

definition Number_or0 :: "int option \<Rightarrow> int" where
  "Number_or0 x = (case js_or x (Some 0) of None \<Rightarrow> 0 | Some v \<Rightarrow> v)"

text \<open>
  The pages keep the budgets in a plain object, \<^verbatim>\<open>{}\<close>, used as a map from category to
  number. Such an object inherits the members of \<^verbatim>\<open>Object.prototype\<close>. Reading a name
  gives the own property when there is one, else the inherited member (a function or
  an object), else \<^verbatim>\<open>undefined\<close>. Writing a number under a name makes an own property,
  except under \<^verbatim>\<open>__proto__\<close>: that name is an accessor of the prototype, which ignores a
  number and always reads as the prototype object.
\<close>

datatype jsval = Undefined | Num jsnum | Inherited

definition object_prototype_keys :: "string list" where
  "object_prototype_keys =
     [''constructor'', ''__defineGetter__'', ''__defineSetter__'', ''hasOwnProperty'',
      ''__lookupGetter__'', ''__lookupSetter__'', ''isPrototypeOf'', ''propertyIsEnumerable'',
      ''toString'', ''valueOf'', ''__proto__'', ''toLocaleString'']"

definition js_set :: "(string \<rightharpoonup> jsnum) \<Rightarrow> string \<Rightarrow> jsnum \<Rightarrow> (string \<rightharpoonup> jsnum)" where
  "js_set obj k v = (if k = ''__proto__'' then obj else obj(k \<mapsto> v))"

definition js_get :: "(string \<rightharpoonup> jsnum) \<Rightarrow> string \<Rightarrow> jsval" where
  "js_get obj k =
     (if k = ''__proto__'' then Inherited
      else
        (case obj k of
           Some v \<Rightarrow> Num v
         | None \<Rightarrow> if k \<in> set object_prototype_keys then Inherited else Undefined))"

text \<open>
  \<^verbatim>\<open>loadEverything\<close> of the budget page:
  \<^verbatim>\<open>budRows.forEach((b) => (budgets[b.category] = Number(b.amount || 0)))\<close>,
  and \<^verbatim>\<open>loadReport\<close> of the report page:
  \<^verbatim>\<open>budgetsArray.forEach((b) => { budgetsObj[b.category] = Number(b.amount || b.total || 0); })\<close>.
  The result is the object, given by its own properties.
\<close>

definition loadEverything_budgets :: "budget_item list \<Rightarrow> (string \<rightharpoonup> jsnum)" where
  "loadEverything_budgets budRows =
     fold (\<lambda>b obj. js_set obj (bi_category b) (Number_decimal (Number_or0 (bi_amount b))))
       budRows Map.empty"

definition loadReport_budgetsObj :: "budget_item list \<Rightarrow> (string \<rightharpoonup> jsnum)" where
  "loadReport_budgetsObj budgetsArray =
     fold (\<lambda>b obj. js_set obj (bi_category b)
              (Number_decimal (Number_or0 (js_or (bi_amount b) (bi_total b)))))
       budgetsArray Map.empty"

text \<open>The items of one category, in the order of the list.\<close>

definition items_of_category :: "string \<Rightarrow> budget_item list \<Rightarrow> budget_item list" where
  "items_of_category c items = filter (\<lambda>b. bi_category b = c) items"

text \<open>
  The tooltip of the spending pie: \<^verbatim>\<open>const budget = budgets[cat] || null\<close>; without a
  budget (nothing found, \<^verbatim>\<open>NaN\<close> or 0) the label says so, else it lists what was spent,
  the budget and \<^verbatim>\<open>budget - spent\<close>. An inherited member counts as a budget; as a number
  it is \<^verbatim>\<open>NaN\<close>, and so is what remains.
\<close>

datatype tooltip =
    BudgetNotSet string jsnum
  | BudgetLines string jsnum jsnum jsnum

definition js_truthy :: "jsnum \<Rightarrow> bool" where
  "js_truthy n \<longleftrightarrow> n \<noteq> NaN \<and> n \<noteq> Fin 0"

definition tooltip_label :: "(string \<rightharpoonup> jsnum) \<Rightarrow> string \<Rightarrow> jsnum \<Rightarrow> tooltip" where
  "tooltip_label budgets cat spent =
     (case js_get budgets cat of
        Undefined \<Rightarrow> BudgetNotSet cat spent
      | Num b \<Rightarrow>
          if js_truthy b then BudgetLines cat spent b (js_sub b spent)
          else BudgetNotSet cat spent
      | Inherited \<Rightarrow> BudgetLines cat spent NaN NaN)"


section \<open>Reading a currency field\<close>

text \<open>
  In reading a currency field only the kind of the number matters (finite, infinite or
  \<^verbatim>\<open>NaN\<close>): a finite value is kept as the exact rational that the digits denote, and the
  overflow to an infinity happens from \<open>2^1024 - 2^970\<close> on.
\<close>

definition is_digit :: "char \<Rightarrow> bool" where
  "is_digit c \<longleftrightarrow> CHR ''0'' \<le> c \<and> c \<le> CHR ''9''"

definition strip_non_numeric :: "string \<Rightarrow> string" where
  \<comment> \<open>\<^verbatim>\<open>s.replace(/[^0-9.-]+/g, '')\<close>\<close>
  "strip_non_numeric s = filter (\<lambda>c. is_digit c \<or> c = CHR ''.'' \<or> c = CHR ''-'') s"

definition digits_val :: "string \<Rightarrow> nat" where
  "digits_val ds = foldl (\<lambda>a c. 10 * a + (of_char c - 48)) 0 ds"

definition overflow_bound :: nat where
  "overflow_bound = 2 ^ 1024 - 2 ^ 970"

definition round_double :: "bool \<Rightarrow> nat \<Rightarrow> nat \<Rightarrow> jsnum" where
  \<comment> \<open>the number \<open>\<plusminus> m / 10^e\<close> as a double\<close>
  "round_double neg m e =
     (if overflow_bound * 10 ^ e \<le> m then (if neg then NegInf else PosInf)
      else Fin ((if neg then - 1 else 1) * (of_nat m / of_nat (10 ^ e))))"

text \<open>
  \<^verbatim>\<open>Number(s)\<close> for a string made of digits, dots and minus signs, which is all that
  the stripping leaves: the empty string is 0; otherwise an optional minus sign,
  digits, and optionally a dot and more digits, with at least one digit in all;
  anything else is \<^verbatim>\<open>NaN\<close>.
\<close>

definition Number_str :: "string \<Rightarrow> jsnum" where
  "Number_str s =
     (if s = [] then Fin 0
      else
        (let neg = (hd s = CHR ''-'');
             body = (if neg then tl s else s);
             ip = takeWhile is_digit body;
             rest = dropWhile is_digit body
         in (case rest of
               [] \<Rightarrow> if ip = [] then NaN else round_double neg (digits_val ip) 0
             | c # fp \<Rightarrow>
                 if c = CHR ''.'' \<and> list_all is_digit fp \<and> (ip \<noteq> [] \<or> fp \<noteq> [])
                 then round_double neg (digits_val (ip @ fp)) (length fp)
                 else NaN)))"

text \<open>\<^verbatim>\<open>String(s || '')\<close>: a missing value and the empty string both give the empty string.\<close>

definition String_or_empty :: "string option \<Rightarrow> string" where
  "String_or_empty s = (case s of None \<Rightarrow> [] | Some x \<Rightarrow> x)"

text \<open>
  \<^verbatim>\<open>unformatCurrency\<close> of the income and expense pages ends with
  \<^verbatim>\<open>Number.isFinite(n) ? n : 0\<close>; the one of the budget page ends with \<^verbatim>\<open>n || 0\<close>.
\<close>

definition unformatCurrency :: "string option \<Rightarrow> jsnum" where
  "unformatCurrency s =
     (let n = Number_str (strip_non_numeric (String_or_empty s))
      in (case n of Fin q \<Rightarrow> n | _ \<Rightarrow> Fin 0))"

definition unformatCurrency_budget :: "string option \<Rightarrow> jsnum" where
  "unformatCurrency_budget s =
     (let n = Number_str (strip_non_numeric (String_or_empty s))
      in (if n = NaN \<or> n = Fin 0 then Fin 0 else n))"


section \<open>Example tables\<close>

text \<open>Amounts are given in cents.\<close>

definition mk_income :: "string \<Rightarrow> int \<Rightarrow> date option \<Rightarrow> income_row" where
  "mk_income email amt dt =
     \<lparr>i_user_email = email, i_source = ''Salary'', i_amount = amt,
      i_cadence = ''monthly'', i_date = dt\<rparr>"

definition mk_expense :: "string \<Rightarrow> string \<Rightarrow> int \<Rightarrow> expense_row" where
  "mk_expense email cat amt =
     \<lparr>e_user_email = email, e_category = cat, e_description = None, e_amount = amt,
      e_date = Some \<lparr>year = 2024, month = 3, day = 9\<rparr>, e_cadence = ''monthly''\<rparr>"

definition mk_budget :: "string \<Rightarrow> string \<Rightarrow> int \<Rightarrow> budget_row" where
  "mk_budget email cat amt =
     \<lparr>b_user_email = email, b_category = cat, b_amount = amt, b_cadence = ''monthly''\<rparr>"

definition db_amy :: db where
  "db_amy =
     \<lparr>income =
        [mk_income ''amy'' 100 (Some \<lparr>year = 2024, month = 1, day = 5\<rparr>),
         mk_income ''bob'' 999 (Some \<lparr>year = 2024, month = 1, day = 7\<rparr>),
         mk_income ''amy'' 20 (Some \<lparr>year = 2023, month = 12, day = 31\<rparr>),
         mk_income ''amy'' 50 (Some \<lparr>year = 2024, month = 1, day = 28\<rparr>)],
      expense =
        [mk_expense ''amy'' ''Food'' 30,
         mk_expense ''amy'' ''Rent'' 100,
         mk_expense ''bob'' ''Rent'' 70,
         mk_expense ''amy'' ''Rent'' 50],
      budget =
        [mk_budget ''amy'' ''Rent'' 500,
         mk_budget ''amy'' ''Rent'' 500,
         mk_budget ''amy'' ''Travel'' 80]\<rparr>"

definition db_whole :: db where
  "db_whole =
     \<lparr>income =
        [mk_income ''amy'' 250000 (Some \<lparr>year = 2024, month = 1, day = 5\<rparr>),
         mk_income ''amy'' 50000 (Some \<lparr>year = 2024, month = 2, day = 5\<rparr>)],
      expense = [mk_expense ''amy'' ''Rent'' 120000],
      budget = []\<rparr>"

definition db_cents :: db where
  "db_cents =
     \<lparr>income = [mk_income ''amy'' 30 (Some \<lparr>year = 2024, month = 1, day = 5\<rparr>)],
      expense = [mk_expense ''amy'' ''Food'' 10],
      budget = []\<rparr>"

definition db_budget_cents :: db where
  "db_budget_cents =
     \<lparr>income = [],
      expense = [],
      budget = [mk_budget ''amy'' ''Food'' 10, mk_budget ''amy'' ''Rent'' 20]\<rparr>"

definition db_rent_twice :: db where
  "db_rent_twice =
     \<lparr>income = [],
      expense = [],
      budget = [mk_budget ''amy'' ''Rent'' 50000, mk_budget ''amy'' ''Rent'' 50000]\<rparr>"




definition db_other_user :: db where
  "db_other_user =
     \<lparr>income = [mk_income ''bob'' 100 None],
      expense = [mk_expense ''bob'' ''Rent'' 70],
      budget = []\<rparr>"

definition items_proto :: "budget_item list" where
  "items_proto =
     [\<lparr>bi_category = ''__proto__'', bi_amount = Some 50000, bi_total = None\<rparr>,
      \<lparr>bi_category = ''__proto__'', bi_amount = Some 70000, bi_total = None\<rparr>]"


section \<open>Doubles: whole numbers are exact\<close>

lemma bit_length_pos: "0 < n \<Longrightarrow> bit_length n = Suc (bit_length (n div 2))"
  by simp

lemma bit_length_nonpos: "n \<le> 0 \<Longrightarrow> bit_length n = 0"
  by simp

declare bit_length.simps [simp del]

lemma bit_length_bounds:
  "0 < n \<Longrightarrow> 2 ^ (bit_length n - 1) \<le> n \<and> n < 2 ^ bit_length n"
proof (induction n rule: bit_length.induct)
  case (1 n)
  show ?case
  proof (cases "n div 2 = 0")
    case True
    with \<open>0 < n\<close> have "n = 1" by presburger
    then show ?thesis by (simp add: bit_length_pos bit_length_nonpos)
  next
    case False
    with \<open>0 < n\<close> have m: "0 < n div 2" by presburger
    from 1 m have ih: "2 ^ (bit_length (n div 2) - 1) \<le> n div 2" "n div 2 < 2 ^ bit_length (n div 2)"
      by simp_all
    from m have bl: "bit_length (n div 2) = Suc (bit_length (n div 2) - 1)"
      by (simp add: bit_length_pos)
    have lo: "2 * (n div 2) \<le> n" and hi: "n \<le> 2 * (n div 2) + 1" by presburger+
    have "(2::int) ^ bit_length (n div 2) = 2 * 2 ^ (bit_length (n div 2) - 1)"
      by (subst bl) simp
    with ih(1) lo have a: "2 ^ bit_length (n div 2) \<le> n" by linarith
    from ih(2) hi have b: "n < 2 * 2 ^ bit_length (n div 2)" by linarith
    from a b \<open>0 < n\<close> show ?thesis by (simp add: bit_length_pos)
  qed
qed

lemma round_half_even_of_int: "round_half_even (of_int m) = m"
  by (simp add: round_half_even_def)

lemma binade_of_int: "1 \<le> k \<Longrightarrow> binade (of_int k) = int (bit_length k) - 1"
  by (simp add: binade_def)

lemma pow2_nonpos: "e \<le> 0 \<Longrightarrow> pow2 e = 1 / 2 ^ nat (- e)"
  by (cases "e = 0") (simp_all add: pow2_def)

lemma scaled_int_round:
  "of_int (round_half_even (rat_of_int a / (1 / 2 ^ j))) * (1 / 2 ^ j) = rat_of_int a"
proof -
  have "rat_of_int a / (1 / 2 ^ j) = of_int (a * 2 ^ j)" by simp
  then have "round_half_even (rat_of_int a / (1 / 2 ^ j)) = a * 2 ^ j"
    by (simp only: round_half_even_of_int)
  then show ?thesis by simp
qed

lemma bit_length_le_54:
  assumes "0 < a" "a \<le> 2 ^ 53"
  shows "1 \<le> bit_length a \<and> bit_length a \<le> 54"
proof -
  from bit_length_bounds[OF assms(1)] have lo: "2 ^ (bit_length a - 1) \<le> a" by simp
  from assms(1) have b1: "1 \<le> bit_length a" by (simp add: bit_length_pos)
  from lo assms(2) have pw: "(2::int) ^ (bit_length a - 1) \<le> 2 ^ 53" by (rule order_trans)
  have "bit_length a - 1 \<le> 53" by (rule power_le_imp_le_exp[OF _ pw]) simp
  with b1 show ?thesis by arith
qed

lemma bit_length_54:
  assumes "0 < a" "a \<le> 2 ^ 53" "bit_length a = 54"
  shows "a = 2 ^ 53"
proof -
  from bit_length_bounds[OF assms(1)] assms(3) have "(2::int) ^ 53 \<le> a" by simp
  with assms(2) show ?thesis by (rule order_antisym)
qed


lemma to_double_nonneg_int:
  assumes "0 < a" "a \<le> 2 ^ 53"
  shows "of_int (round_half_even (rat_of_int a / pow2 (int (bit_length a) - 53)))
           * pow2 (int (bit_length a) - 53) = rat_of_int a"
proof (cases "bit_length a = 54")
  case True
  then have a: "a = 2 ^ 53" using assms by (simp only: bit_length_54)
  have p: "pow2 (int (bit_length a) - 53) = 2" by (simp add: True pow2_def)
  have "rat_of_int a / 2 = of_int (2 ^ 52)" by (simp add: a)
  then have r: "round_half_even (rat_of_int a / 2) = 2 ^ 52"
    by (simp only: round_half_even_of_int)
  have "rat_of_int (2 ^ 52) * 2 = rat_of_int a" by (simp add: a)
  then show ?thesis by (simp only: p r)
next
  case False
  with bit_length_le_54[OF assms] have le: "int (bit_length a) - 53 \<le> 0" by simp
  show ?thesis by (simp only: pow2_nonpos[OF le] scaled_int_round)
qed

lemma to_double_of_int:
  assumes "\<bar>k\<bar> \<le> 2 ^ 53"
  shows "to_double (of_int k) = Fin (of_int k)"
proof (cases "k = 0")
  case True
  then show ?thesis by (simp add: to_double_def)
next
  case False
  define a where "a = \<bar>k\<bar>"
  from False have apos: "0 < a" by (simp add: a_def)
  from assms have a53: "a \<le> 2 ^ 53" by (simp only: a_def)
  have abs_q: "\<bar>rat_of_int k\<bar> = of_int a" by (simp add: a_def)
  from apos have "1 \<le> rat_of_int a" by simp
  then have bin: "binade (rat_of_int a) = int (bit_length a) - 1"
    using apos by (simp add: binade_of_int)
  from bit_length_le_54[OF apos a53]
  have e: "max (binade (rat_of_int a)) (- 1022) - 52 = int (bit_length a) - 53"
    by (simp add: bin)
  have small: "\<not> (2 ^ 1024 \<le> rat_of_int a)"
  proof
    assume "2 ^ 1024 \<le> rat_of_int a"
    then have "rat_of_int (2 ^ 1024) \<le> rat_of_int a" by simp
    then have "(2::int) ^ 1024 \<le> a" by (simp only: of_int_le_iff)
    from this a53 have "(2::int) ^ 1024 \<le> 2 ^ 53" by (rule order_trans)
    then have "(1024::nat) \<le> 53" by (rule power_le_imp_le_exp[rotated]) simp
    then show False by simp
  qed
  have sgn: "(if rat_of_int k < 0 then - rat_of_int a else rat_of_int a) = rat_of_int k"
    by (simp add: a_def)
  have nz: "rat_of_int k \<noteq> 0" using False by simp
  show ?thesis
    unfolding to_double_def Let_def abs_q e to_double_nonneg_int[OF apos a53]
    by (simp only: nz small sgn if_False)
qed

lemma Number_decimal_whole: "\<bar>k\<bar> \<le> 2 ^ 53 \<Longrightarrow> Number_decimal (100 * k) = Fin (of_int k)"
  using to_double_of_int[of k] by (simp add: Number_decimal_def)

lemma js_add_of_int:
  "\<bar>a + b\<bar> \<le> 2 ^ 53 \<Longrightarrow> js_add (Fin (of_int a)) (Fin (of_int b)) = Fin (of_int (a + b))"
  using to_double_of_int[of "a + b"] by simp

lemma js_sub_of_int:
  "\<bar>a - b\<bar> \<le> 2 ^ 53 \<Longrightarrow> js_sub (Fin (of_int a)) (Fin (of_int b)) = Fin (of_int (a - b))"
  using to_double_of_int[of "a - b"] by (simp add: js_sub_def)


text \<open>Evaluation of the rounding on numerals.\<close>

lemma bit_length_0: "bit_length 0 = 0"
  by (simp add: bit_length_nonpos)

lemma bit_length_1: "bit_length 1 = 1"
  by (simp add: bit_length_pos bit_length_nonpos)

lemma bit_length_Bit0: "bit_length (numeral (Num.Bit0 n)) = Suc (bit_length (numeral n))"
proof -
  have "(numeral (Num.Bit0 n) :: int) div 2 = numeral n" by simp
  moreover have "0 < (numeral (Num.Bit0 n) :: int)" by simp
  ultimately show ?thesis by (simp only: bit_length_pos)
qed

lemma bit_length_Bit1: "bit_length (numeral (Num.Bit1 n)) = Suc (bit_length (numeral n))"
proof -
  have "(numeral (Num.Bit1 n) :: int) div 2 = numeral n" by simp
  moreover have "0 < (numeral (Num.Bit1 n) :: int)" by simp
  ultimately show ?thesis by (simp only: bit_length_pos)
qed

lemma floor_rat_numeral_div:
  "\<lfloor>numeral a / numeral b :: rat\<rfloor> = numeral a div numeral b"
  using floor_divide_of_int_eq[of "numeral a" "numeral b", where ?'a = rat] by simp

lemma ceiling_rat_numeral_div:
  "\<lceil>numeral a / numeral b :: rat\<rceil> = - ((- numeral a) div numeral b)"
  using floor_divide_of_int_eq[of "- numeral a" "numeral b", where ?'a = rat]
  by (simp add: ceiling_def)

lemmas double_eval = to_double_def binade_def pow2_def round_half_even_def Let_def
  bit_length_0 bit_length_1 bit_length_Bit0 bit_length_Bit1
  floor_rat_numeral_div ceiling_rat_numeral_div js_sub_def Number_decimal_def


text \<open>Differences and sums of whole amounts are exact.\<close>

lemma decimal_value_whole: "decimal_value (100 * k) = of_int k"
  by (simp add: decimal_value_def)

lemma net_whole:
  assumes "100 dvd a" "100 dvd b"
    and "\<bar>a\<bar> \<le> 100 * 2 ^ 53" "\<bar>b\<bar> \<le> 100 * 2 ^ 53" "\<bar>a - b\<bar> \<le> 100 * 2 ^ 53"
  shows "js_sub (Number_decimal a) (Number_decimal b) = Fin (decimal_value (a - b))"
proof -
  from assms(1) obtain k where a: "a = 100 * k" by (auto simp: dvd_def)
  from assms(2) obtain l where b: "b = 100 * l" by (auto simp: dvd_def)
  have ab: "a - b = 100 * (k - l)" by (simp add: a b)
  have "100 * \<bar>k\<bar> \<le> 100 * (2::int) ^ 53" using assms(3) by (simp add: a abs_mult)
  then have k: "\<bar>k\<bar> \<le> 2 ^ 53" by (simp only: mult_le_cancel_left_pos zero_less_numeral)
  have "100 * \<bar>l\<bar> \<le> 100 * (2::int) ^ 53" using assms(4) by (simp add: b abs_mult)
  then have l: "\<bar>l\<bar> \<le> 2 ^ 53" by (simp only: mult_le_cancel_left_pos zero_less_numeral)
  have "100 * \<bar>k - l\<bar> \<le> 100 * (2::int) ^ 53" using assms(5) by (simp only: ab abs_mult abs_numeral)
  then have kl: "\<bar>k - l\<bar> \<le> 2 ^ 53" by (simp only: mult_le_cancel_left_pos zero_less_numeral)
  from ab have v: "decimal_value (a - b) = of_int (k - l)" by (simp only: decimal_value_whole)
  have "js_sub (Number_decimal (100 * k)) (Number_decimal (100 * l)) = Fin (of_int (k - l))"
    by (simp only: Number_decimal_whole[OF k] Number_decimal_whole[OF l] js_sub_of_int[OF kl])
  then show ?thesis by (simp only: v flip: a b)
qed

lemma fold_js_add_whole:
  assumes "\<forall>x \<in> set xs. 100 dvd x \<and> 0 \<le> x" and "0 \<le> s"
    and "100 * s + sum_list xs \<le> 100 * 2 ^ 53"
  shows "foldl (\<lambda>a x. js_add a (Number_decimal x)) (Fin (of_int s)) xs
           = Fin (decimal_value (100 * s + sum_list xs))"
  using assms
proof (induction xs arbitrary: s)
  case Nil
  then show ?case by (simp add: decimal_value_whole)
next
  case (Cons x xs)
  from Cons.prems(1) obtain k where x: "x = 100 * k" and k0: "0 \<le> k"
    by (auto simp: dvd_def)
  from Cons.prems(1) have nn: "0 \<le> sum_list xs" by (simp add: sum_list_nonneg)
  from Cons.prems(3) nn x have sk: "100 * (s + k) \<le> 100 * (2::int) ^ 53" by simp
  then have skb: "s + k \<le> 2 ^ 53" by (simp only: mult_le_cancel_left_pos zero_less_numeral)
  define B where "B = (2::int) ^ 53"
  from skb have skB: "s + k \<le> B" by (simp only: B_def)
  from skB Cons.prems(2) k0 have "\<bar>k\<bar> \<le> B" and "\<bar>s + k\<bar> \<le> B" by linarith+
  then have ks: "\<bar>k\<bar> \<le> 2 ^ 53" and ss: "\<bar>s + k\<bar> \<le> 2 ^ 53" by (simp_all only: B_def)
  have step: "js_add (Fin (of_int s)) (Number_decimal x) = Fin (of_int (s + k))"
    unfolding x by (simp only: Number_decimal_whole[OF ks] js_add_of_int[OF ss])
  have rest: "\<forall>y \<in> set xs. 100 dvd y \<and> 0 \<le> y" using Cons.prems(1) by simp
  have b: "100 * (s + k) + sum_list xs \<le> 100 * 2 ^ 53" using Cons.prems(3) x by simp
  have sk0: "0 \<le> s + k" using Cons.prems(2) k0 by simp
  have "foldl (\<lambda>a x. js_add a (Number_decimal x)) (Fin (of_int s)) (x # xs)
      = foldl (\<lambda>a x. js_add a (Number_decimal x)) (Fin (of_int (s + k))) xs"
    by (simp only: foldl_Cons step)
  also have "\<dots> = Fin (decimal_value (100 * (s + k) + sum_list xs))"
    by (rule Cons.IH[OF rest sk0 b])
  also have "100 * (s + k) + sum_list xs = 100 * s + sum_list (x # xs)"
    by (simp add: x)
  finally show ?case .
qed

lemma budget_total_whole:
  assumes "\<forall>e \<in> set bud. 100 dvd ct_total e \<and> 0 \<le> ct_total e"
    and "sum_list (map ct_total bud) \<le> 100 * 2 ^ 53"
  shows "foldl (\<lambda>s r. js_add s (Number_decimal (ct_total r))) (Fin 0) bud
           = Fin (decimal_value (sum_list (map ct_total bud)))"
proof -
  have "foldl (\<lambda>s r. js_add s (Number_decimal (ct_total r))) (Fin 0) bud
      = foldl (\<lambda>a x. js_add a (Number_decimal x)) (Fin (of_int 0)) (map ct_total bud)"
    by (simp add: foldl_map)
  also have "\<dots> = Fin (decimal_value (100 * 0 + sum_list (map ct_total bud)))"
    by (rule fold_js_add_whole) (use assms in auto)
  finally show ?thesis by simp
qed


section \<open>Doubles: a decimal other than 0 is not rounded to 0\<close>

lemma pow2_pos: "0 < pow2 e"
  by (simp add: pow2_def)

lemma pow2_mono:
  assumes "e \<le> e'"
  shows "pow2 e \<le> pow2 e'"
proof (cases "0 \<le> e")
  case True
  with assms have "nat e \<le> nat e'" "0 \<le> e'" by simp_all
  with True show ?thesis by (simp add: pow2_def power_increasing)
next
  case neg: False
  then have l: "pow2 e = 1 / 2 ^ nat (- e)" by (simp add: pow2_def)
  show ?thesis
  proof (cases "0 \<le> e'")
    case True
    then have r: "pow2 e' = 2 ^ nat e'" by (simp add: pow2_def)
    have "1 / 2 ^ nat (- e) \<le> (1 :: rat)" by simp
    also have "\<dots> \<le> 2 ^ nat e'" by simp
    finally show ?thesis by (simp only: l r)
  next
    case False
    then have r: "pow2 e' = 1 / 2 ^ nat (- e')" by (simp add: pow2_def)
    from assms have "nat (- e') \<le> nat (- e)" by simp
    then have "(2 :: rat) ^ nat (- e') \<le> 2 ^ nat (- e)" by (simp add: power_increasing)
    then have "1 / 2 ^ nat (- e) \<le> (1 :: rat) / 2 ^ nat (- e')" by (simp add: frac_le)
    then show ?thesis by (simp only: l r)
  qed
qed

lemma pow2_binade_le:
  assumes "0 < q"
  shows "pow2 (binade q) \<le> q"
proof (cases "1 \<le> q")
  case True
  then have n: "0 < \<lfloor>q\<rfloor>" by simp
  from bit_length_bounds[OF n] have "2 ^ (bit_length \<lfloor>q\<rfloor> - 1) \<le> \<lfloor>q\<rfloor>" by simp
  then have "rat_of_int (2 ^ (bit_length \<lfloor>q\<rfloor> - 1)) \<le> of_int \<lfloor>q\<rfloor>"
    by (simp only: of_int_le_iff)
  also have "\<dots> \<le> q" by simp
  finally have le: "2 ^ (bit_length \<lfloor>q\<rfloor> - 1) \<le> q" by simp
  from n have "1 \<le> bit_length \<lfloor>q\<rfloor>" by (simp add: bit_length_pos)
  then have "pow2 (int (bit_length \<lfloor>q\<rfloor>) - 1) = 2 ^ (bit_length \<lfloor>q\<rfloor> - 1)"
    by (simp add: pow2_def nat_diff_distrib')
  with le True show ?thesis by (simp add: binade_def)
next
  case False
  define n where "n = \<lceil>1 / q\<rceil> - 1"
  from False assms have "1 < 1 / q" by simp
  then have "1 < \<lceil>1 / q\<rceil>" by (simp add: less_ceiling_iff)
  then have n: "0 < n" by (simp add: n_def)
  from bit_length_bounds[OF n] have "n < 2 ^ bit_length n" by simp
  then have "\<lceil>1 / q\<rceil> \<le> 2 ^ bit_length n" by (simp add: n_def)
  then have "1 / q \<le> of_int (2 ^ bit_length n)" by (simp only: ceiling_le_iff)
  then have "1 / q \<le> 2 ^ bit_length n" by simp
  with assms have "1 \<le> 2 ^ bit_length n * q"
    by (simp add: pos_divide_le_eq)
  then have "1 / 2 ^ bit_length n \<le> q"
    by (simp add: pos_divide_le_eq mult.commute)
  moreover have "pow2 (- int (bit_length n)) = 1 / 2 ^ bit_length n"
    by (simp add: pow2_nonpos)
  ultimately show ?thesis using False by (simp add: binade_def n_def)
qed

lemma round_half_even_ge_1: "1 \<le> x \<Longrightarrow> 1 \<le> round_half_even x"
proof -
  assume "1 \<le> x"
  then have "1 \<le> \<lfloor>x\<rfloor>" by simp
  then show ?thesis by (simp add: round_half_even_def Let_def)
qed

lemma to_double_nonzero:
  assumes "1 / 100 \<le> \<bar>q\<bar>"
  shows "to_double q \<noteq> Fin 0"
proof -
  define a where "a = \<bar>q\<bar>"
  define e where "e = max (binade a) (- 1022) - 52"
  define v where "v = rat_of_int (round_half_even (a / pow2 e)) * pow2 e"
  from assms have apos: "0 < a" and a100: "1 / 100 \<le> a" by (simp_all add: a_def)
  have le: "pow2 e \<le> a"
  proof (cases "- 1022 \<le> binade a")
    case True
    then have "e \<le> binade a" by (simp add: e_def)
    then have "pow2 e \<le> pow2 (binade a)" by (rule pow2_mono)
    also have "\<dots> \<le> a" by (rule pow2_binade_le[OF apos])
    finally show ?thesis .
  next
    case False
    then have "e = - 1074" by (simp add: e_def)
    then have "pow2 e = 1 / 2 ^ 1074" by (simp add: pow2_def)
    also have "\<dots> \<le> 1 / 2 ^ 7" by (simp add: frac_le)
    also have "\<dots> \<le> (1 / 100 :: rat)" by simp
    finally show ?thesis using a100 by simp
  qed
  then have "1 \<le> a / pow2 e" using pow2_pos[of e] by (simp add: pos_le_divide_eq)
  then have "1 \<le> round_half_even (a / pow2 e)" by (rule round_half_even_ge_1)
  then have "1 \<le> rat_of_int (round_half_even (a / pow2 e))" by simp
  then have "0 < rat_of_int (round_half_even (a / pow2 e))" by simp
  then have vpos: "0 < v" unfolding v_def using pow2_pos[of e] by (rule mult_pos_pos)
  have q0: "q \<noteq> 0" using apos by (simp add: a_def)
  have "to_double q = (if 2 ^ 1024 \<le> v then (if q < 0 then NegInf else PosInf)
                        else Fin (if q < 0 then - v else v))"
    using q0 by (simp add: to_double_def Let_def v_def e_def a_def)
  with vpos show ?thesis by auto
qed

lemma to_double_not_NaN: "to_double q \<noteq> NaN"
  by (simp add: to_double_def Let_def)

lemma Number_decimal_truthy: "js_truthy (Number_decimal c) \<longleftrightarrow> c \<noteq> 0"
proof (cases "c = 0")
  case True
  then show ?thesis by (simp add: js_truthy_def Number_decimal_def to_double_def)
next
  case False
  then have "1 \<le> \<bar>c\<bar>" by simp
  then have "1 \<le> rat_of_int \<bar>c\<bar>" by (simp only: of_int_1_le_iff)
  then have "1 / 100 \<le> \<bar>rat_of_int c / 100\<bar>" by simp
  then have "to_double (rat_of_int c / 100) \<noteq> Fin 0" by (rule to_double_nonzero)
  with False show ?thesis by (simp add: js_truthy_def Number_decimal_def to_double_not_NaN)
qed


section \<open>Grouping and summing\<close>

lemma set_group_keys: "set (group_keys ks) = set ks"
  by (induction ks rule: group_keys.induct) auto

lemma distinct_group_keys: "distinct (group_keys ks)"
  by (induction ks rule: group_keys.induct) (auto simp: set_group_keys)

lemma keys_sql_group_sum: "map fst (sql_group_sum key val rows) = group_keys (map key rows)"
  by (simp add: sql_group_sum_def comp_def)

lemma in_sql_group_sum:
  "(k, t) \<in> set (sql_group_sum key val rows) \<longleftrightarrow> k \<in> key ` set rows \<and> t = group_total key val rows k"
  by (auto simp: sql_group_sum_def set_group_keys)

lemma group_total_Cons:
  "group_total key val (r # rows) k = (if key r = k then val r else 0) + group_total key val rows k"
  by (simp add: group_total_def)

lemma sum_list_delta:
  "distinct ks \<Longrightarrow> (\<Sum>k\<leftarrow>ks. if a = k then (v::int) else 0) = (if a \<in> set ks then v else 0)"
  by (induction ks) auto

lemma sum_group_totals:
  "distinct ks \<Longrightarrow> set (map key rows) \<subseteq> set ks \<Longrightarrow>
   (\<Sum>k\<leftarrow>ks. group_total key val rows k) = sum_list (map val rows)"
proof (induction rows)
  case Nil
  then show ?case by (simp add: group_total_def)
next
  case (Cons r rows)
  have "(\<Sum>k\<leftarrow>ks. group_total key val (r # rows) k)
        = (\<Sum>k\<leftarrow>ks. if key r = k then val r else 0) + (\<Sum>k\<leftarrow>ks. group_total key val rows k)"
    by (simp add: group_total_Cons sum_list_addf)
  also have "\<dots> = val r + sum_list (map val rows)"
    using Cons by (simp add: sum_list_delta)
  finally show ?case by simp
qed

lemma sum_sql_group_sum:
  "sum_list (map snd (sql_group_sum key val rows)) = sum_list (map val rows)"
  using sum_group_totals[of "group_keys (map key rows)" key rows val]
  by (simp add: sql_group_sum_def comp_def distinct_group_keys set_group_keys)


section \<open>Month keys and their order\<close>

lemma of_char_digit: "of_char (digit a) = (48 + a mod 10 :: nat)"
proof -
  have "48 + a mod 10 < (256::nat)" by simp
  then show ?thesis by (simp add: digit_def)
qed



lemma digit_not_dash: "digit a \<noteq> CHR ''-''"
proof
  assume "digit a = CHR ''-''"
  then have "(of_char (digit a) :: nat) = of_char (CHR ''-'')" by simp
  then show False by (simp add: of_char_digit)
qed


















section \<open>Evaluation on concrete tables\<close>

lemma char_of_digits:
  "char_of (48::nat) = CHR ''0''" "char_of (49::nat) = CHR ''1''" "char_of (50::nat) = CHR ''2''"
  "char_of (51::nat) = CHR ''3''" "char_of (52::nat) = CHR ''4''" "char_of (53::nat) = CHR ''5''"
  "char_of (54::nat) = CHR ''6''" "char_of (55::nat) = CHR ''7''" "char_of (56::nat) = CHR ''8''"
  "char_of (57::nat) = CHR ''9''"
  by code_simp+

lemmas eval_defs = digit_def char_of_digits digits4_def digits2_def valid_date_def date_format_ym01_def
  q_monthly_income_def q_expense_categories_def q_budget_categories_def
  sql_group_sum_def group_total_def income_of_def expense_of_def budget_of_def
  reports_def q_income_total_def q_expense_total_def sql_sum_def ifnull_def


section \<open>Facts about the queries\<close>

lemma budget_categories_keys:
  "map ct_category (q_budget_categories d email) = group_keys (map b_category (budget_of d email))"
  by (simp add: q_budget_categories_def budget_of_def sql_group_sum_def comp_def)

lemma budget_categories_total:
  "e \<in> set (q_budget_categories d email) \<Longrightarrow>
   ct_total e = group_total b_category b_amount (budget_of d email) (ct_category e)"
  by (auto simp: q_budget_categories_def budget_of_def sql_group_sum_def)

lemma budget_categories_sum:
  "sum_list (map ct_total (q_budget_categories d email)) = sum_list (map b_amount (budget_of d email))"
  using sum_sql_group_sum[of b_category b_amount "budget_of d email"]
  by (simp add: q_budget_categories_def budget_of_def sql_group_sum_def comp_def)

lemma expense_categories_set:
  "set (q_expense_categories d email) =
     (\<lambda>k. \<lparr>ct_category = k, ct_total = group_total e_category e_amount (expense_of d email) k\<rparr>)
       ` e_category ` set (expense_of d email)"
  by (auto simp: q_expense_categories_def expense_of_def sql_group_sum_def set_group_keys)

lemma distinct_map_sort_key:
  "distinct (map f xs) \<Longrightarrow> distinct (map f (sort_key g xs))"
  by (simp add: distinct_map)

lemma expense_categories_distinct:
  "distinct (map ct_category (q_expense_categories d email))"
  unfolding q_expense_categories_def
  by (rule distinct_map_sort_key) (simp add: sql_group_sum_def comp_def distinct_group_keys)

lemma expense_categories_sorted:
  "sorted_wrt (\<lambda>a b. a \<ge> b) (map ct_total (q_expense_categories d email))"
proof -
  have "sorted (map (\<lambda>r. - ct_total r) (q_expense_categories d email))"
    unfolding q_expense_categories_def by (rule sorted_sort_key)
  then show ?thesis by (simp add: sorted_wrt_map)
qed







lemma sum_list_insort_key:
  "sum_list (map f (insort_key g x xs)) = (f x :: int) + sum_list (map f xs)"
  by (induction xs) auto

lemma sum_list_sort_key: "sum_list (map f (sort_key g xs)) = (sum_list (map f xs) :: int)"
  by (induction xs) (auto simp: sum_list_insort_key)

lemma monthly_income_sum:
  "sum_list (map mt_total (q_monthly_income d email)) = sum_list (map i_amount (income_of d email))"
  using sum_sql_group_sum[of "\<lambda>r. date_format_ym01 (i_date r)" i_amount "income_of d email"]
  by (simp add: q_monthly_income_def sum_list_sort_key income_of_def sql_group_sum_def comp_def)

lemma expense_categories_sum:
  "sum_list (map ct_total (q_expense_categories d email)) = sum_list (map e_amount (expense_of d email))"
  using sum_sql_group_sum[of e_category e_amount "expense_of d email"]
  by (simp add: q_expense_categories_def sum_list_sort_key expense_of_def sql_group_sum_def comp_def)

section \<open>The fields of the payload\<close>

lemma ifnull_sql_sum: "ifnull (sql_sum xs) 0 = sum_list xs"
  by (simp add: ifnull_def sql_sum_def)

lemma reports_Some:
  "reports (Some d) email =
     Inr \<lparr>rp_totals =
            \<lparr>t_income = sum_list (map i_amount (income_of d email)),
             t_expenses = sum_list (map e_amount (expense_of d email)),
             t_net = js_sub (Number_decimal (sum_list (map i_amount (income_of d email))))
                       (Number_decimal (sum_list (map e_amount (expense_of d email))))\<rparr>,
          rp_monthlyIncome = q_monthly_income d email,
          rp_expensesByCategory = q_expense_categories d email,
          rp_budgets =
            \<lparr>bp_total = foldl (\<lambda>s r. js_add s (Number_decimal (ct_total r))) (Fin 0)
                          (q_budget_categories d email),
             bp_byCategory = q_budget_categories d email\<rparr>\<rparr>"
  by (simp add: reports_def q_income_total_def q_expense_total_def ifnull_sql_sum Let_def)

lemma reports_fields:
  "\<exists>p. reports (Some d) email = Inr p
     \<and> t_income (rp_totals p) = sum_list (map i_amount (income_of d email))
     \<and> t_expenses (rp_totals p) = sum_list (map e_amount (expense_of d email))
     \<and> t_net (rp_totals p) =
           js_sub (Number_decimal (sum_list (map i_amount (income_of d email))))
             (Number_decimal (sum_list (map e_amount (expense_of d email))))
     \<and> rp_monthlyIncome p = q_monthly_income d email
     \<and> rp_expensesByCategory p = q_expense_categories d email
     \<and> bp_byCategory (rp_budgets p) = q_budget_categories d email
     \<and> bp_total (rp_budgets p) =
           foldl (\<lambda>s r. js_add s (Number_decimal (ct_total r))) (Fin 0)
             (q_budget_categories d email)"
  by (simp add: reports_Some)

section \<open>Totals\<close>

text \<open>
  Claim C1 as it is worded does not hold: the net total is computed by JavaScript on
  doubles and need not be the exact difference. For an income of 0.30 and an expense of
  0.10 the payload carries the net total 0.19999999999999998 (the double
  7205759403792793 / 2^55), not 0.20.
\<close>

theorem net_not_exact_counterexample:
  "reports (Some db_cents) ''amy'' =
     Inr \<lparr>rp_totals =
            \<lparr>t_income = 30, t_expenses = 10,
             t_net = Fin (7205759403792793 / 36028797018963968)\<rparr>,
          rp_monthlyIncome = [\<lparr>mt_date = Some ''2024-01-01'', mt_total = 30\<rparr>],
          rp_expensesByCategory = [\<lparr>ct_category = ''Food'', ct_total = 10\<rparr>],
          rp_budgets = \<lparr>bp_total = Fin 0, bp_byCategory = []\<rparr>\<rparr>
   \<and> 7205759403792793 / 36028797018963968 \<noteq> decimal_value (30 - 10)"
  by (simp add: eval_defs double_eval decimal_value_def db_cents_def mk_income_def mk_expense_def)

text \<open>
  Claim C1, amended. For all income and expense rows of a user the report is produced,
  \<open>totals.income\<close> is the sum of all income amounts and \<open>totals.expenses\<close> the sum of all
  expense amounts, both exact. \<open>totals.net\<close> is the difference of the two totals as
  JavaScript computes it on doubles; it is the exact difference when both totals are
  whole amounts (no cents) and they and their difference are at most \<open>2^53\<close> in
  magnitude. With no income and no expense rows all three totals are 0.
\<close>

theorem totals_sums_and_double_net:
  "\<exists>p. reports (Some d) email = Inr p
     \<and> t_income (rp_totals p) = sum_list (map i_amount (income_of d email))
     \<and> t_expenses (rp_totals p) = sum_list (map e_amount (expense_of d email))
     \<and> t_net (rp_totals p) =
         js_sub (Number_decimal (t_income (rp_totals p))) (Number_decimal (t_expenses (rp_totals p)))
     \<and> (100 dvd t_income (rp_totals p) \<and> 100 dvd t_expenses (rp_totals p)
          \<and> \<bar>t_income (rp_totals p)\<bar> \<le> 100 * 2 ^ 53
          \<and> \<bar>t_expenses (rp_totals p)\<bar> \<le> 100 * 2 ^ 53
          \<and> \<bar>t_income (rp_totals p) - t_expenses (rp_totals p)\<bar> \<le> 100 * 2 ^ 53
        \<longrightarrow> t_net (rp_totals p) =
              Fin (decimal_value (t_income (rp_totals p) - t_expenses (rp_totals p))))
     \<and> (income_of d email = [] \<and> expense_of d email = []
        \<longrightarrow> rp_totals p = \<lparr>t_income = 0, t_expenses = 0, t_net = Fin 0\<rparr>)"
proof -
  define p where "p =
     \<lparr>rp_totals =
            \<lparr>t_income = sum_list (map i_amount (income_of d email)),
             t_expenses = sum_list (map e_amount (expense_of d email)),
             t_net = js_sub (Number_decimal (sum_list (map i_amount (income_of d email))))
                       (Number_decimal (sum_list (map e_amount (expense_of d email))))\<rparr>,
          rp_monthlyIncome = q_monthly_income d email,
          rp_expensesByCategory = q_expense_categories d email,
          rp_budgets =
            \<lparr>bp_total = foldl (\<lambda>s r. js_add s (Number_decimal (ct_total r))) (Fin 0)
                          (q_budget_categories d email),
             bp_byCategory = q_budget_categories d email\<rparr>\<rparr>"
  have r: "reports (Some d) email = Inr p"
    by (simp only: reports_Some p_def)
  have i: "t_income (rp_totals p) = sum_list (map i_amount (income_of d email))"
    and e: "t_expenses (rp_totals p) = sum_list (map e_amount (expense_of d email))"
    and n: "t_net (rp_totals p) =
         js_sub (Number_decimal (t_income (rp_totals p))) (Number_decimal (t_expenses (rp_totals p)))"
    by (simp_all add: p_def)
  have w: "100 dvd t_income (rp_totals p) \<and> 100 dvd t_expenses (rp_totals p)
          \<and> \<bar>t_income (rp_totals p)\<bar> \<le> 100 * 2 ^ 53
          \<and> \<bar>t_expenses (rp_totals p)\<bar> \<le> 100 * 2 ^ 53
          \<and> \<bar>t_income (rp_totals p) - t_expenses (rp_totals p)\<bar> \<le> 100 * 2 ^ 53
        \<longrightarrow> t_net (rp_totals p) =
              Fin (decimal_value (t_income (rp_totals p) - t_expenses (rp_totals p)))"
    unfolding n by (intro impI net_whole) blast+
  have z: "income_of d email = [] \<and> expense_of d email = []
        \<longrightarrow> rp_totals p = \<lparr>t_income = 0, t_expenses = 0, t_net = Fin 0\<rparr>"
    by (simp add: p_def js_sub_def Number_decimal_def to_double_def)
  from r i e n w z show ?thesis by blast
qed

theorem totals_sums_and_double_net_witness:
  "(\<exists>p. reports (Some db_whole) ''amy'' = Inr p
       \<and> t_income (rp_totals p) = 300000 \<and> t_expenses (rp_totals p) = 120000
       \<and> t_net (rp_totals p) = Fin 1800)
   \<and> (\<exists>p. reports (Some db_other_user) ''amy'' = Inr p
       \<and> rp_totals p = \<lparr>t_income = 0, t_expenses = 0, t_net = Fin 0\<rparr>)"
proof -
  from totals_sums_and_double_net[of db_whole "''amy''"] obtain p where
    p: "reports (Some db_whole) ''amy'' = Inr p"
    and i: "t_income (rp_totals p) = sum_list (map i_amount (income_of db_whole ''amy''))"
    and e: "t_expenses (rp_totals p) = sum_list (map e_amount (expense_of db_whole ''amy''))"
    and w: "100 dvd t_income (rp_totals p) \<and> 100 dvd t_expenses (rp_totals p)
          \<and> \<bar>t_income (rp_totals p)\<bar> \<le> 100 * 2 ^ 53
          \<and> \<bar>t_expenses (rp_totals p)\<bar> \<le> 100 * 2 ^ 53
          \<and> \<bar>t_income (rp_totals p) - t_expenses (rp_totals p)\<bar> \<le> 100 * 2 ^ 53
        \<longrightarrow> t_net (rp_totals p) =
              Fin (decimal_value (t_income (rp_totals p) - t_expenses (rp_totals p)))"
    by blast
  have i': "t_income (rp_totals p) = 300000"
    by (simp add: i income_of_def db_whole_def mk_income_def)
  have e': "t_expenses (rp_totals p) = 120000"
    by (simp add: e expense_of_def db_whole_def mk_expense_def)
  from w have n': "t_net (rp_totals p) = Fin 1800"
    by (simp add: i' e' decimal_value_def)
  from totals_sums_and_double_net[of db_other_user "''amy''"] obtain q where
    q: "reports (Some db_other_user) ''amy'' = Inr q"
    and z: "income_of db_other_user ''amy'' = [] \<and> expense_of db_other_user ''amy'' = []
        \<longrightarrow> rp_totals q = \<lparr>t_income = 0, t_expenses = 0, t_net = Fin 0\<rparr>"
    by blast
  from z have z': "rp_totals q = \<lparr>t_income = 0, t_expenses = 0, t_net = Fin 0\<rparr>"
    by (simp add: income_of_def expense_of_def db_other_user_def mk_income_def mk_expense_def)
  from p i' e' n' q z' show ?thesis by blast
qed

section \<open>Monthly income\<close>






section \<open>Expenses by category\<close>

text \<open>
  Claim C3. In the report of a user the expenses by category have pairwise different
  categories, their categories are exactly the category strings of the expense rows of
  the user (compared as stored), the total of an entry is the sum of the amounts of all
  expense rows of the user with that category, and the entries come in descending order
  of their totals.
\<close>

theorem expenses_by_category_grouped:
  "\<exists>p. reports (Some d) email = Inr p
     \<and> distinct (map ct_category (rp_expensesByCategory p))
     \<and> ct_category ` set (rp_expensesByCategory p) = e_category ` set (expense_of d email)
     \<and> (\<forall>e \<in> set (rp_expensesByCategory p).
           ct_total e = sum_list (map e_amount
              (filter (\<lambda>r. e_category r = ct_category e) (expense_of d email))))
     \<and> sorted_wrt (\<lambda>a b. a \<ge> b) (map ct_total (rp_expensesByCategory p))"
proof -
  from reports_fields[of d email] obtain p where
    p: "reports (Some d) email = Inr p"
    and c: "rp_expensesByCategory p = q_expense_categories d email"
    by blast
  have c1: "distinct (map ct_category (rp_expensesByCategory p))"
    unfolding c by (rule expense_categories_distinct)
  have c2: "ct_category ` set (rp_expensesByCategory p) = e_category ` set (expense_of d email)"
    unfolding c by (auto simp: expense_categories_set image_iff)
  have c3: "\<forall>e \<in> set (rp_expensesByCategory p).
           ct_total e = sum_list (map e_amount
              (filter (\<lambda>r. e_category r = ct_category e) (expense_of d email)))"
    unfolding c by (auto simp: expense_categories_set group_total_def)
  have c4: "sorted_wrt (\<lambda>a b. a \<ge> b) (map ct_total (rp_expensesByCategory p))"
    unfolding c by (rule expense_categories_sorted)
  from p c1 c2 c3 c4 show ?thesis by blast
qed

lemma amy_expense_categories:
  "q_expense_categories db_amy ''amy'' =
     [\<lparr>ct_category = ''Rent'', ct_total = 150\<rparr>, \<lparr>ct_category = ''Food'', ct_total = 30\<rparr>]"
  by (simp add: eval_defs db_amy_def mk_expense_def)

lemma amy_expense:
  "expense_of db_amy ''amy'' =
     [mk_expense ''amy'' ''Food'' 30, mk_expense ''amy'' ''Rent'' 100, mk_expense ''amy'' ''Rent'' 50]"
  by (simp add: expense_of_def db_amy_def mk_expense_def)

theorem expenses_by_category_grouped_witness:
  "\<exists>p. reports (Some db_amy) ''amy'' = Inr p
     \<and> rp_expensesByCategory p =
         [\<lparr>ct_category = ''Rent'', ct_total = 150\<rparr>, \<lparr>ct_category = ''Food'', ct_total = 30\<rparr>]
     \<and> \<lparr>ct_category = ''Rent'', ct_total = 150\<rparr> \<in> set (rp_expensesByCategory p)
     \<and> sum_list (map e_amount
          (filter (\<lambda>r. e_category r = ''Rent'') (expense_of db_amy ''amy''))) = 150"
proof -
  from expenses_by_category_grouped[of db_amy "''amy''"] obtain p where
    p: "reports (Some db_amy) ''amy'' = Inr p"
    and tot: "\<forall>e \<in> set (rp_expensesByCategory p).
           ct_total e = sum_list (map e_amount
              (filter (\<lambda>r. e_category r = ct_category e) (expense_of db_amy ''amy'')))"
    by blast
  from reports_fields[of db_amy "''amy''"] p
  have c: "rp_expensesByCategory p = q_expense_categories db_amy ''amy''"
    by auto
  have mem: "\<lparr>ct_category = ''Rent'', ct_total = 150\<rparr> \<in> set (rp_expensesByCategory p)"
    by (simp add: c amy_expense_categories)
  from tot[rule_format, OF mem]
  have "sum_list (map e_amount
          (filter (\<lambda>r. e_category r = ''Rent'') (expense_of db_amy ''amy''))) = 150"
    by simp
  with p c mem show ?thesis by (simp add: amy_expense_categories)
qed

section \<open>Budgets\<close>

text \<open>
  Claim C4 as it is worded does not hold: \<open>budgets.total\<close> is added up by JavaScript on
  doubles and need not be the sum of the grouped totals. For the two budgets Food 0.10
  and Rent 0.20 the payload carries the total 0.30000000000000004 (the double
  1351079888211149 / 2^52), not 0.30.
\<close>

theorem budget_total_not_exact_counterexample:
  "reports (Some db_budget_cents) ''amy'' =
     Inr \<lparr>rp_totals = \<lparr>t_income = 0, t_expenses = 0, t_net = Fin 0\<rparr>,
          rp_monthlyIncome = [],
          rp_expensesByCategory = [],
          rp_budgets =
            \<lparr>bp_total = Fin (1351079888211149 / 4503599627370496),
             bp_byCategory = [\<lparr>ct_category = ''Food'', ct_total = 10\<rparr>,
                              \<lparr>ct_category = ''Rent'', ct_total = 20\<rparr>]\<rparr>\<rparr>
   \<and> 1351079888211149 / 4503599627370496 \<noteq> decimal_value (10 + 20)"
  by (simp add: eval_defs double_eval decimal_value_def db_budget_cents_def mk_budget_def)

text \<open>
  Claim C4, amended. For all budget rows of a user the report is produced; the entries of
  \<open>budgets.byCategory\<close> have pairwise different categories, which are exactly the
  categories of the budget rows, and the total of an entry is the sum of the amounts of
  all budget rows of that category (rows of one category are added, none overwrites
  another). \<open>budgets.total\<close> is the result of adding the grouped totals one after the
  other on doubles, starting from 0; it is the exact sum of the grouped totals, which is
  the sum of all budget amounts, when every grouped total is a whole amount (no cents)
  that is not negative and the sum is at most \<open>2^53\<close>. Two rows Rent 500 give the entry
  Rent 1000 and the total 1000.
\<close>

theorem budgets_grouped_and_double_total:
  "\<exists>p. reports (Some d) email = Inr p
     \<and> distinct (map ct_category (bp_byCategory (rp_budgets p)))
     \<and> ct_category ` set (bp_byCategory (rp_budgets p)) = b_category ` set (budget_of d email)
     \<and> (\<forall>e \<in> set (bp_byCategory (rp_budgets p)).
           ct_total e = sum_list (map b_amount
              (filter (\<lambda>r. b_category r = ct_category e) (budget_of d email))))
     \<and> bp_total (rp_budgets p) =
         foldl (\<lambda>s r. js_add s (Number_decimal (ct_total r))) (Fin 0) (bp_byCategory (rp_budgets p))
     \<and> ((\<forall>e \<in> set (bp_byCategory (rp_budgets p)). 100 dvd ct_total e \<and> 0 \<le> ct_total e)
          \<and> sum_list (map ct_total (bp_byCategory (rp_budgets p))) \<le> 100 * 2 ^ 53
        \<longrightarrow> bp_total (rp_budgets p) =
              Fin (decimal_value (sum_list (map ct_total (bp_byCategory (rp_budgets p)))))
          \<and> bp_total (rp_budgets p) =
              Fin (decimal_value (sum_list (map b_amount (budget_of d email)))))"
proof -
  from reports_fields[of d email] obtain p where
    p: "reports (Some d) email = Inr p"
    and c: "bp_byCategory (rp_budgets p) = q_budget_categories d email"
    and t: "bp_total (rp_budgets p) =
           foldl (\<lambda>s r. js_add s (Number_decimal (ct_total r))) (Fin 0)
             (q_budget_categories d email)"
    by blast
  have c1: "distinct (map ct_category (bp_byCategory (rp_budgets p)))"
    unfolding c by (simp add: budget_categories_keys distinct_group_keys)
  have c2: "ct_category ` set (bp_byCategory (rp_budgets p)) = b_category ` set (budget_of d email)"
    unfolding c
    using arg_cong[OF budget_categories_keys[of d email], of set]
    by (simp add: set_group_keys)
  have c3: "\<forall>e \<in> set (bp_byCategory (rp_budgets p)).
           ct_total e = sum_list (map b_amount
              (filter (\<lambda>r. b_category r = ct_category e) (budget_of d email)))"
    unfolding c by (auto simp: budget_categories_total group_total_def)
  have c4: "bp_total (rp_budgets p) =
         foldl (\<lambda>s r. js_add s (Number_decimal (ct_total r))) (Fin 0) (bp_byCategory (rp_budgets p))"
    by (simp only: t c)
  have c5: "(\<forall>e \<in> set (bp_byCategory (rp_budgets p)). 100 dvd ct_total e \<and> 0 \<le> ct_total e)
          \<and> sum_list (map ct_total (bp_byCategory (rp_budgets p))) \<le> 100 * 2 ^ 53
        \<longrightarrow> bp_total (rp_budgets p) =
              Fin (decimal_value (sum_list (map ct_total (bp_byCategory (rp_budgets p)))))
          \<and> bp_total (rp_budgets p) =
              Fin (decimal_value (sum_list (map b_amount (budget_of d email))))"
  proof
    assume h: "(\<forall>e \<in> set (bp_byCategory (rp_budgets p)). 100 dvd ct_total e \<and> 0 \<le> ct_total e)
          \<and> sum_list (map ct_total (bp_byCategory (rp_budgets p))) \<le> 100 * 2 ^ 53"
    then have "bp_total (rp_budgets p) =
              Fin (decimal_value (sum_list (map ct_total (bp_byCategory (rp_budgets p)))))"
      unfolding c4 by (intro budget_total_whole) blast+
    moreover have "sum_list (map ct_total (bp_byCategory (rp_budgets p)))
                     = sum_list (map b_amount (budget_of d email))"
      unfolding c by (rule budget_categories_sum)
    ultimately show "bp_total (rp_budgets p) =
              Fin (decimal_value (sum_list (map ct_total (bp_byCategory (rp_budgets p)))))
          \<and> bp_total (rp_budgets p) =
              Fin (decimal_value (sum_list (map b_amount (budget_of d email))))"
      by simp
  qed
  from p c1 c2 c3 c4 c5 show ?thesis by blast
qed

lemma rent_twice_budget_categories:
  "q_budget_categories db_rent_twice ''amy'' = [\<lparr>ct_category = ''Rent'', ct_total = 100000\<rparr>]"
  by (simp add: eval_defs db_rent_twice_def mk_budget_def)

theorem budgets_grouped_and_double_total_witness:
  "\<exists>p. reports (Some db_rent_twice) ''amy'' = Inr p
     \<and> bp_byCategory (rp_budgets p) = [\<lparr>ct_category = ''Rent'', ct_total = 100000\<rparr>]
     \<and> sum_list (map b_amount
          (filter (\<lambda>r. b_category r = ''Rent'') (budget_of db_rent_twice ''amy''))) = 100000
     \<and> bp_total (rp_budgets p) = Fin 1000"
proof -
  from budgets_grouped_and_double_total[of db_rent_twice "''amy''"] obtain p where
    p: "reports (Some db_rent_twice) ''amy'' = Inr p"
    and tot: "\<forall>e \<in> set (bp_byCategory (rp_budgets p)).
           ct_total e = sum_list (map b_amount
              (filter (\<lambda>r. b_category r = ct_category e) (budget_of db_rent_twice ''amy'')))"
    and w: "(\<forall>e \<in> set (bp_byCategory (rp_budgets p)). 100 dvd ct_total e \<and> 0 \<le> ct_total e)
          \<and> sum_list (map ct_total (bp_byCategory (rp_budgets p))) \<le> 100 * 2 ^ 53
        \<longrightarrow> bp_total (rp_budgets p) =
              Fin (decimal_value (sum_list (map ct_total (bp_byCategory (rp_budgets p)))))
          \<and> bp_total (rp_budgets p) =
              Fin (decimal_value (sum_list (map b_amount (budget_of db_rent_twice ''amy''))))"
    by blast
  from reports_fields[of db_rent_twice "''amy''"] p
  have c: "bp_byCategory (rp_budgets p) = [\<lparr>ct_category = ''Rent'', ct_total = 100000\<rparr>]"
    by (auto simp: rent_twice_budget_categories)
  have mem: "\<lparr>ct_category = ''Rent'', ct_total = 100000\<rparr> \<in> set (bp_byCategory (rp_budgets p))"
    by (simp add: c)
  from tot[rule_format, OF mem]
  have s: "sum_list (map b_amount
          (filter (\<lambda>r. b_category r = ''Rent'') (budget_of db_rent_twice ''amy''))) = 100000"
    by simp
  from w have t: "bp_total (rp_budgets p) = Fin 1000"
    by (simp add: c decimal_value_def)
  from p c s t show ?thesis by blast
qed

section \<open>The two category sets\<close>

lemma q_expense_categories_budget_update:
  "q_expense_categories (d\<lparr>budget := bs\<rparr>) email = q_expense_categories d email"
  by (simp add: q_expense_categories_def expense_of_def)

lemma q_budget_categories_expense_update:
  "q_budget_categories (d\<lparr>expense := es\<rparr>) email = q_budget_categories d email"
  by (simp add: q_budget_categories_def budget_of_def)


text \<open>
  Claim C5. The categories of the expenses by category are exactly the categories of the
  expense rows of the user, and the categories of the budgets by category are exactly
  the categories of the budget rows of the user; replacing the budget table by any other
  leaves the expenses by category as they are, and replacing the expense table by any
  other leaves the budgets by category as they are.
\<close>

theorem category_sets_independent:
  "\<exists>p. reports (Some d) email = Inr p
     \<and> ct_category ` set (rp_expensesByCategory p) = e_category ` set (expense_of d email)
     \<and> ct_category ` set (bp_byCategory (rp_budgets p)) = b_category ` set (budget_of d email)
     \<and> (\<forall>bs. \<exists>p'. reports (Some (d\<lparr>budget := bs\<rparr>)) email = Inr p'
            \<and> rp_expensesByCategory p' = rp_expensesByCategory p)
     \<and> (\<forall>es. \<exists>p'. reports (Some (d\<lparr>expense := es\<rparr>)) email = Inr p'
            \<and> bp_byCategory (rp_budgets p') = bp_byCategory (rp_budgets p))"
proof -
  from reports_fields[of d email] obtain p where
    p: "reports (Some d) email = Inr p"
    and c: "rp_expensesByCategory p = q_expense_categories d email"
    and b: "bp_byCategory (rp_budgets p) = q_budget_categories d email"
    by blast
  have c1: "ct_category ` set (rp_expensesByCategory p) = e_category ` set (expense_of d email)"
    unfolding c by (auto simp: expense_categories_set image_iff)
  have "set (map ct_category (q_budget_categories d email)) = set (map b_category (budget_of d email))"
    by (simp only: budget_categories_keys set_group_keys)
  then have c2: "ct_category ` set (bp_byCategory (rp_budgets p)) = b_category ` set (budget_of d email)"
    unfolding b by simp
  have c3: "\<exists>p'. reports (Some (d\<lparr>budget := bs\<rparr>)) email = Inr p'
            \<and> rp_expensesByCategory p' = rp_expensesByCategory p" for bs
    using reports_fields[of "d\<lparr>budget := bs\<rparr>" email]
    by (auto simp: c q_expense_categories_budget_update)
  have c4: "\<exists>p'. reports (Some (d\<lparr>expense := es\<rparr>)) email = Inr p'
            \<and> bp_byCategory (rp_budgets p') = bp_byCategory (rp_budgets p)" for es
    using reports_fields[of "d\<lparr>expense := es\<rparr>" email]
    by (auto simp: b q_budget_categories_expense_update)
  from p c1 c2 c3 c4 show ?thesis by blast
qed

theorem category_sets_independent_witness:
  "\<exists>p. reports (Some db_amy) ''amy'' = Inr p
     \<and> ct_category ` set (rp_expensesByCategory p) = {''Food'', ''Rent''}
     \<and> ct_category ` set (bp_byCategory (rp_budgets p)) = {''Rent'', ''Travel''}"
proof -
  have e: "e_category ` set (expense_of db_amy ''amy'') = {''Food'', ''Rent''}"
    by (simp add: expense_of_def db_amy_def mk_expense_def)
  have b: "b_category ` set (budget_of db_amy ''amy'') = {''Rent'', ''Travel''}"
    by (simp add: budget_of_def db_amy_def mk_budget_def)
  from category_sets_independent[of db_amy "''amy''"] e b show ?thesis
    by auto
qed

section \<open>Income rows without a date\<close>


text \<open>
  The handler answers with a payload whenever the database answers, whatever the rows
  are; the error branches of the destructuring are never taken, because a \<^verbatim>\<open>SUM\<close>
  without \<^verbatim>\<open>GROUP BY\<close> always yields one row.
\<close>

lemma reports_returns_payload: "\<exists>p. reports (Some d) email = Inr p"
  by (simp add: reports_Some)

lemma reports_no_connection: "reports None email = Inl DbError"
  by (simp add: reports_def)



section \<open>The report depends on the rows of the user only\<close>

lemma reports_depends_on_own_rows:
  assumes "income_of d email = income_of d' email"
    and "expense_of d email = expense_of d' email"
    and "budget_of d email = budget_of d' email"
  shows "reports (Some d) email = reports (Some d') email"
proof -
  have "q_monthly_income d email = q_monthly_income d' email"
    using assms(1) by (simp add: q_monthly_income_def income_of_def)
  moreover have "q_expense_categories d email = q_expense_categories d' email"
    using assms(2) by (simp add: q_expense_categories_def expense_of_def)
  moreover have "q_budget_categories d email = q_budget_categories d' email"
    using assms(3) by (simp add: q_budget_categories_def budget_of_def)
  ultimately show ?thesis
    using assms by (simp add: reports_Some)
qed

section \<open>Reading a currency field: finiteness\<close>

text \<open>
  The function of the income and expense pages returns a finite number for every input;
  the one of the budget page never returns \<^verbatim>\<open>NaN\<close>.
\<close>

lemma round_double_not_NaN: "round_double neg m e \<noteq> NaN"
  by (simp add: round_double_def)

lemma Number_str_cases:
  "Number_str s = NaN \<or> Number_str s = PosInf \<or> Number_str s = NegInf \<or> (\<exists>q. Number_str s = Fin q)"
  by (cases "Number_str s") auto

lemma unformatCurrency_finite: "\<exists>q. unformatCurrency s = Fin q"
  by (cases "Number_str (strip_non_numeric (String_or_empty s))")
     (simp_all add: unformatCurrency_def)

lemma unformatCurrency_budget_not_NaN: "unformatCurrency_budget s \<noteq> NaN"
  by (simp add: unformatCurrency_budget_def Let_def)

lemma strip_non_numeric_chars:
  "set (strip_non_numeric s) \<subseteq> {c. is_digit c} \<union> {CHR ''.'', CHR ''-''}"
  by (auto simp: strip_non_numeric_def)

lemma is_digit_9: "is_digit (CHR ''9'')"
  by (simp add: is_digit_def)

lemma strip_nines: "strip_non_numeric (replicate n (CHR ''9'')) = replicate n (CHR ''9'')"
  by (simp add: strip_non_numeric_def is_digit_9)

lemma foldl_nines:
  "foldl (\<lambda>a c. 10 * a + (of_char c - 48)) (a::nat) (replicate n (CHR ''9'')) + 1 = (a + 1) * 10 ^ n"
proof (induction n arbitrary: a)
  case 0
  then show ?case by simp
next
  case (Suc n)
  have "(of_char (CHR ''9'') :: nat) - 48 = 9" by simp
  then have "foldl (\<lambda>a c. 10 * a + (of_char c - 48)) a (replicate (Suc n) (CHR ''9'')) + 1
      = foldl (\<lambda>a c. 10 * a + (of_char c - 48)) (10 * a + 9) (replicate n (CHR ''9'')) + 1"
    by simp
  also have "\<dots> = (10 * a + 9 + 1) * 10 ^ n" by (rule Suc.IH)
  also have "\<dots> = (a + 1) * 10 ^ Suc n" by (simp add: algebra_simps)
  finally show ?case .
qed

lemma digits_val_nines: "digits_val (replicate n (CHR ''9'')) + 1 = 10 ^ n"
  using foldl_nines[of 0 n] by (simp add: digits_val_def)

lemma Number_str_nines:
  assumes "0 < n"
  shows "Number_str (replicate n (CHR ''9'')) = round_double False (digits_val (replicate n (CHR ''9''))) 0"
proof -
  from assms obtain k where n: "n = Suc k" by (cases n) auto
  have tw: "takeWhile is_digit (replicate n (CHR ''9'')) = replicate n (CHR ''9'')"
    by (simp add: takeWhile_eq_all_conv is_digit_9)
  have dw: "dropWhile is_digit (replicate n (CHR ''9'')) = []"
    by (simp add: dropWhile_eq_Nil_conv is_digit_9)
  have hd9: "hd (replicate n (CHR ''9'')) = CHR ''9''" "replicate n (CHR ''9'') \<noteq> []"
    using n by simp_all
  show ?thesis
    unfolding Number_str_def Let_def
    using hd9 by (simp add: tw dw is_digit_9)
qed

lemma overflow_bound_less: "overflow_bound * 10 ^ 0 \<le> 10 ^ 309 - 1"
  by (simp add: overflow_bound_def)


text \<open>
  Claim C9. The function of the budget page is not always finite: for the string of 309
  nines the number read overflows, \<^verbatim>\<open>n || 0\<close> keeps it, and the result is \<^verbatim>\<open>Infinity\<close>,
  where the function of the income and expense pages returns 0.
\<close>

theorem unformatCurrency_budget_overflow:
  "unformatCurrency_budget (Some (replicate 309 (CHR ''9''))) = PosInf"
proof -
  have v: "digits_val (replicate 309 (CHR ''9'')) = 10 ^ 309 - 1"
    using digits_val_nines[of 309] by simp
  have "Number_str (replicate 309 (CHR ''9'')) = PosInf"
    using overflow_bound_less by (simp add: Number_str_nines v round_double_def)
  then show ?thesis
    by (simp add: unformatCurrency_budget_def String_or_empty_def strip_nines)
qed

lemma unformatCurrency_overflow:
  "unformatCurrency (Some (replicate 309 (CHR ''9''))) = Fin 0"
proof -
  have v: "digits_val (replicate 309 (CHR ''9'')) = 10 ^ 309 - 1"
    using digits_val_nines[of 309] by simp
  have "Number_str (replicate 309 (CHR ''9'')) = PosInf"
    using overflow_bound_less by (simp add: Number_str_nines v round_double_def)
  then show ?thesis
    by (simp add: unformatCurrency_def String_or_empty_def strip_nines)
qed

section \<open>The budget maps of the pages\<close>

lemma fold_js_set_last:
  assumes "c \<noteq> ''__proto__''"
  shows "fold (\<lambda>b obj. js_set obj (key b) (val b)) items m0 c =
     (if filter (\<lambda>b. key b = c) items = [] then m0 c
      else Some (val (last (filter (\<lambda>b. key b = c) items))))"
proof (induction items arbitrary: m0)
  case Nil
  then show ?case by simp
next
  case (Cons b items)
  define m where "m = js_set m0 (key b) (val b)"
  have step: "fold (\<lambda>b obj. js_set obj (key b) (val b)) (b # items) m0 c
                = fold (\<lambda>b obj. js_set obj (key b) (val b)) items m c"
    by (simp add: m_def)
  have ih: "fold (\<lambda>b obj. js_set obj (key b) (val b)) items m c =
     (if filter (\<lambda>b. key b = c) items = [] then m c
      else Some (val (last (filter (\<lambda>b. key b = c) items))))"
    by (rule Cons.IH)
  have mc: "m c = (if key b = c then Some (val b) else m0 c)"
    using assms by (auto simp: m_def js_set_def)
  show ?case
    unfolding step ih mc by simp
qed

lemma loadEverything_budgets_last:
  assumes "c \<noteq> ''__proto__''"
  shows "loadEverything_budgets items c =
     (if items_of_category c items = [] then None
      else Some (Number_decimal (Number_or0 (bi_amount (last (items_of_category c items))))))"
  unfolding loadEverything_budgets_def items_of_category_def
  using fold_js_set_last[OF assms, of bi_category "\<lambda>b. Number_decimal (Number_or0 (bi_amount b))"
      items Map.empty]
  by simp

lemma loadReport_budgetsObj_last:
  assumes "c \<noteq> ''__proto__''"
  shows "loadReport_budgetsObj items c =
     (if items_of_category c items = [] then None
      else Some (Number_decimal (Number_or0 (js_or (bi_amount (last (items_of_category c items)))
                                                   (bi_total (last (items_of_category c items)))))))"
  unfolding loadReport_budgetsObj_def items_of_category_def
  using fold_js_set_last[OF assms, of bi_category
      "\<lambda>b. Number_decimal (Number_or0 (js_or (bi_amount b) (bi_total b)))" items Map.empty]
  by simp

lemma tooltip_label_of_map:
  assumes "c \<noteq> ''__proto__''"
  shows "tooltip_label budgets c spent =
     (case budgets c of
        None \<Rightarrow> if c \<in> set object_prototype_keys then BudgetLines c spent NaN NaN
                else BudgetNotSet c spent
      | Some b \<Rightarrow> if js_truthy b then BudgetLines c spent b (js_sub b spent)
                  else BudgetNotSet c spent)"
  using assms by (simp add: tooltip_label_def js_get_def split: option.splits)

text \<open>
  What the two maps give for a name other than \<^verbatim>\<open>__proto__\<close>, and what the tooltip shows:
  with items of that category the amount of the last one; without, the name reads as
  undefined, or as the inherited member when it is a member of \<^verbatim>\<open>Object.prototype\<close>.
\<close>

lemma budget_maps_read:
  assumes "c \<noteq> ''__proto__''"
  shows "js_get (loadEverything_budgets items) c =
     (if items_of_category c items = []
      then (if c \<in> set object_prototype_keys then Inherited else Undefined)
      else Num (Number_decimal (Number_or0 (bi_amount (last (items_of_category c items))))))
   \<and> js_get (loadReport_budgetsObj items) c =
     (if items_of_category c items = []
      then (if c \<in> set object_prototype_keys then Inherited else Undefined)
      else Num (Number_decimal (Number_or0 (js_or (bi_amount (last (items_of_category c items)))
                                                  (bi_total (last (items_of_category c items)))))))
   \<and> tooltip_label (loadEverything_budgets items) c spent =
     (if items_of_category c items = []
      then (if c \<in> set object_prototype_keys then BudgetLines c spent NaN NaN
            else BudgetNotSet c spent)
      else if Number_or0 (bi_amount (last (items_of_category c items))) = 0
      then BudgetNotSet c spent
      else BudgetLines c spent
             (Number_decimal (Number_or0 (bi_amount (last (items_of_category c items)))))
             (js_sub (Number_decimal (Number_or0 (bi_amount (last (items_of_category c items)))))
                spent))
   \<and> tooltip_label (loadReport_budgetsObj items) c spent =
     (if items_of_category c items = []
      then (if c \<in> set object_prototype_keys then BudgetLines c spent NaN NaN
            else BudgetNotSet c spent)
      else if Number_or0 (js_or (bi_amount (last (items_of_category c items)))
                                (bi_total (last (items_of_category c items)))) = 0
      then BudgetNotSet c spent
      else BudgetLines c spent
             (Number_decimal (Number_or0 (js_or (bi_amount (last (items_of_category c items)))
                                                (bi_total (last (items_of_category c items))))))
             (js_sub (Number_decimal (Number_or0 (js_or (bi_amount (last (items_of_category c items)))
                                                        (bi_total (last (items_of_category c items))))))
                spent))"
proof -
  note a = loadEverything_budgets_last[OF assms, of items]
  note b = loadReport_budgetsObj_last[OF assms, of items]
  have g1: "js_get (loadEverything_budgets items) c =
     (if items_of_category c items = []
      then (if c \<in> set object_prototype_keys then Inherited else Undefined)
      else Num (Number_decimal (Number_or0 (bi_amount (last (items_of_category c items))))))"
    using assms by (simp add: js_get_def a)
  have g2: "js_get (loadReport_budgetsObj items) c =
     (if items_of_category c items = []
      then (if c \<in> set object_prototype_keys then Inherited else Undefined)
      else Num (Number_decimal (Number_or0 (js_or (bi_amount (last (items_of_category c items)))
                                                  (bi_total (last (items_of_category c items)))))))"
    using assms by (simp add: js_get_def b)
  have t1: "tooltip_label (loadEverything_budgets items) c spent =
     (if items_of_category c items = []
      then (if c \<in> set object_prototype_keys then BudgetLines c spent NaN NaN
            else BudgetNotSet c spent)
      else if Number_or0 (bi_amount (last (items_of_category c items))) = 0
      then BudgetNotSet c spent
      else BudgetLines c spent
             (Number_decimal (Number_or0 (bi_amount (last (items_of_category c items)))))
             (js_sub (Number_decimal (Number_or0 (bi_amount (last (items_of_category c items)))))
                spent))"
    by (simp add: tooltip_label_of_map[OF assms] a Number_decimal_truthy)
  have t2: "tooltip_label (loadReport_budgetsObj items) c spent =
     (if items_of_category c items = []
      then (if c \<in> set object_prototype_keys then BudgetLines c spent NaN NaN
            else BudgetNotSet c spent)
      else if Number_or0 (js_or (bi_amount (last (items_of_category c items)))
                                (bi_total (last (items_of_category c items)))) = 0
      then BudgetNotSet c spent
      else BudgetLines c spent
             (Number_decimal (Number_or0 (js_or (bi_amount (last (items_of_category c items)))
                                                (bi_total (last (items_of_category c items))))))
             (js_sub (Number_decimal (Number_or0 (js_or (bi_amount (last (items_of_category c items)))
                                                        (bi_total (last (items_of_category c items))))))
                spent))"
    by (simp add: tooltip_label_of_map[OF assms] b Number_decimal_truthy)
  from g1 g2 t1 t2 show ?thesis by blast
qed

text \<open>
  Claim C10 as it is worded does not hold for every category: for two budget items of
  the category \<^verbatim>\<open>__proto__\<close>, with the amounts 500 and 700, neither map keeps the amount
  of the last item. The assignments make no property, the name reads as the inherited
  prototype, and the tooltip shows \<^verbatim>\<open>NaN\<close> as budget and as remainder.
\<close>

theorem proto_category_not_kept_counterexample:
  "map bi_amount (items_of_category ''__proto__'' items_proto) = [Some 50000, Some 70000]
   \<and> loadEverything_budgets items_proto ''__proto__'' = None
   \<and> loadReport_budgetsObj items_proto ''__proto__'' = None
   \<and> js_get (loadEverything_budgets items_proto) ''__proto__'' = Inherited
   \<and> js_get (loadReport_budgetsObj items_proto) ''__proto__'' = Inherited
   \<and> tooltip_label (loadEverything_budgets items_proto) ''__proto__'' (Fin 300)
        = BudgetLines ''__proto__'' (Fin 300) NaN NaN
   \<and> tooltip_label (loadReport_budgetsObj items_proto) ''__proto__'' (Fin 300)
        = BudgetLines ''__proto__'' (Fin 300) NaN NaN"
  by (simp add: items_proto_def items_of_category_def loadEverything_budgets_def
      loadReport_budgetsObj_def js_set_def js_get_def tooltip_label_def)

text \<open>
  Claim C10, amended. For every category other than \<^verbatim>\<open>__proto__\<close> of which the list of
  \<^verbatim>\<open>GET /api/budgets\<close> has items, the budget map of the budget page and the one of the
  report page hold the amount of the last of these items (each assignment replaces the
  earlier one) and not the sum; the tooltip shows that amount as the budget and the
  difference to what was spent, computed on doubles, as the remainder, or says that no
  budget is set when that amount is 0.
\<close>

theorem budget_maps_keep_last_amount:
  assumes "c \<noteq> ''__proto__''" and "items_of_category c items \<noteq> []"
  shows "js_get (loadEverything_budgets items) c =
       Num (Number_decimal (Number_or0 (bi_amount (last (items_of_category c items)))))
   \<and> js_get (loadReport_budgetsObj items) c =
       Num (Number_decimal (Number_or0 (js_or (bi_amount (last (items_of_category c items)))
                                              (bi_total (last (items_of_category c items))))))
   \<and> tooltip_label (loadEverything_budgets items) c spent =
     (if Number_or0 (bi_amount (last (items_of_category c items))) = 0
      then BudgetNotSet c spent
      else BudgetLines c spent
             (Number_decimal (Number_or0 (bi_amount (last (items_of_category c items)))))
             (js_sub (Number_decimal (Number_or0 (bi_amount (last (items_of_category c items)))))
                spent))
   \<and> tooltip_label (loadReport_budgetsObj items) c spent =
     (if Number_or0 (js_or (bi_amount (last (items_of_category c items)))
                           (bi_total (last (items_of_category c items)))) = 0
      then BudgetNotSet c spent
      else BudgetLines c spent
             (Number_decimal (Number_or0 (js_or (bi_amount (last (items_of_category c items)))
                                                (bi_total (last (items_of_category c items))))))
             (js_sub (Number_decimal (Number_or0 (js_or (bi_amount (last (items_of_category c items)))
                                                        (bi_total (last (items_of_category c items))))))
                spent))"
  using budget_maps_read[OF assms(1), of items spent] assms(2) by simp

lemma rent_twice_items:
  "api_budgets db_rent_twice ''amy'' =
     [\<lparr>bi_category = ''Rent'', bi_amount = Some 50000, bi_total = None\<rparr>,
      \<lparr>bi_category = ''Rent'', bi_amount = Some 50000, bi_total = None\<rparr>]"
  by (simp add: api_budgets_def budget_of_def db_rent_twice_def mk_budget_def)

lemma Number_decimal_500: "Number_decimal 50000 = Fin 500"
  using Number_decimal_whole[of 500] by simp

theorem budget_maps_keep_last_amount_witness:
  "''Rent'' \<noteq> ''__proto__''
   \<and> items_of_category ''Rent'' (api_budgets db_rent_twice ''amy'') \<noteq> []
   \<and> js_get (loadEverything_budgets (api_budgets db_rent_twice ''amy'')) ''Rent'' = Num (Fin 500)
   \<and> js_get (loadReport_budgetsObj (api_budgets db_rent_twice ''amy'')) ''Rent'' = Num (Fin 500)
   \<and> tooltip_label (loadEverything_budgets (api_budgets db_rent_twice ''amy'')) ''Rent'' (Fin 300)
        = BudgetLines ''Rent'' (Fin 300) (Fin 500) (Fin 200)
   \<and> tooltip_label (loadReport_budgetsObj (api_budgets db_rent_twice ''amy'')) ''Rent'' (Fin 300)
        = BudgetLines ''Rent'' (Fin 300) (Fin 500) (Fin 200)
   \<and> q_budget_categories db_rent_twice ''amy'' = [\<lparr>ct_category = ''Rent'', ct_total = 100000\<rparr>]"
proof -
  have n: "''Rent'' \<noteq> ''__proto__''" by simp
  have i: "items_of_category ''Rent'' (api_budgets db_rent_twice ''amy'')
      = [\<lparr>bi_category = ''Rent'', bi_amount = Some 50000, bi_total = None\<rparr>,
         \<lparr>bi_category = ''Rent'', bi_amount = Some 50000, bi_total = None\<rparr>]"
    by (simp add: rent_twice_items items_of_category_def)
  have s: "js_sub (Fin 500) (Fin 300) = Fin 200"
    using js_sub_of_int[of 500 300] by simp
  have ne: "items_of_category ''Rent'' (api_budgets db_rent_twice ''amy'') \<noteq> []"
    by (simp add: i)
  from budget_maps_keep_last_amount[OF n ne, of "Fin 300"]
  show ?thesis
    by (simp add: i Number_or0_def js_or_def Number_decimal_500 s rent_twice_budget_categories)
qed


end
